theory Spec2Isabelle
  imports Complex_Main "HOL-Library.Multiset"
begin

section \<open>Representation of renewable-energy time series per region\<close>

text \<open>
  A model of \<^verbatim>\<open>src/FINE/spagat/RE_representation.py\<close>: the function
  \<^verbatim>\<open>represent_RE_technology\<close> with its two local functions
  \<^verbatim>\<open>_simply_aggregate_RE_technology\<close> and \<^verbatim>\<open>_cluster_RE_technology\<close>.

  Conventions of the model.
  \<^item> A finite float64 is a real number; arithmetic on finite values is exact (no rounding,
    no overflow). A missing value (NaN) in an input array is \<open>None\<close>. The result of a
    division is a \<open>float64\<close>, which also has NaN and the two infinities.
  \<^item> The two spatial axes are kept in their stacked form: the grid is the list of its
    cells in the order of \<^verbatim>\<open>stack(x_y=[longitude, latitude])\<close>, and the position of a
    cell in that list is its \<^verbatim>\<open>x_y\<close> label. A labelled array over \<^verbatim>\<open>x_y\<close> is a list
    of (label, value) pairs.
  \<^item> The time coordinate is kept by its length; a time series is a list over the time
    steps.
  \<^item> The clustering library (\<^verbatim>\<open>AgglomerativeClustering(...).fit(X).labels_\<close>) is a
    parameter \<open>fit\<close> of the model: it takes the number of clusters and the rows of the
    capacity-factor array and returns the labels or raises.
  \<^item> The rasterized dataset is the input of the model (the rasterization helper is not
    part of the modelled file).
  \<^item> The labels of a coordinate are distinct; \<^verbatim>\<open>sel(region_ids=region)\<close> then selects the
    one slice of that region.
\<close>

subsection \<open>Values and errors\<close>

datatype error = ValueError | IndexError | MergeError

datatype float64 = Finite real | NaN | PosInf | NegInf

text \<open>numpy's true division of two finite floats: \<open>0/0\<close> is NaN, \<open>x/0\<close> is an infinity (a
  warning, never an exception). The zero divisors that occur are sums, hence \<open>+0.0\<close>.\<close>

definition np_div :: "real \<Rightarrow> real \<Rightarrow> float64" where
  "np_div a b =
     (if b \<noteq> 0 then Finite (a / b)
      else if a = 0 then NaN
      else if 0 < a then PosInf else NegInf)"

text \<open>Storing a float into an int64 array truncates towards zero; a value outside the
  range of int64 is stored as the smallest int64.\<close>

definition astype_int64 :: "real \<Rightarrow> int" where
  "astype_int64 x =
     (let k = (if 0 \<le> x then \<lfloor>x\<rfloor> else \<lceil>x\<rceil>)
      in if - (2 ^ 63) \<le> k \<and> k < 2 ^ 63 then k else - (2 ^ 63))"

subsection \<open>The rasterized dataset\<close>

record 'r cell =
  capacity :: "real option"
  capfac :: "real option list"
  rasters :: "'r \<Rightarrow> int"

record 'r rasterized_ds =
  n_timeSteps :: nat
  region_ids :: "'r list"
  cells :: "'r cell list"

subsection \<open>Array operations of xarray, on the stacked cell axis\<close>

text \<open>\<^verbatim>\<open>da.where(cond)\<close> at one element: the value where the condition holds, NaN elsewhere.\<close>

definition xr_where :: "real option \<Rightarrow> bool \<Rightarrow> real option" where
  "xr_where v cond = (if cond then v else None)"

text \<open>\<^verbatim>\<open>da > 0\<close> at one element: a comparison with NaN is false.\<close>

definition gt_0 :: "real option \<Rightarrow> bool" where
  "gt_0 v = (case v of None \<Rightarrow> False | Some x \<Rightarrow> 0 < x)"

text \<open>\<^verbatim>\<open>dropna(dim='x_y')\<close>: a label is kept when none of its values is NaN.\<close>

definition dropna_1d :: "(nat \<times> real option) list \<Rightarrow> (nat \<times> real) list" where
  "dropna_1d da = List.map_filter (\<lambda>(i, v). map_option (Pair i) v) da"

definition dropna_2d :: "(nat \<times> real option list) list \<Rightarrow> (nat \<times> real list) list" where
  "dropna_2d da = List.map_filter (\<lambda>(i, row). map_option (Pair i) (those row)) da"

text \<open>The product of a one-dimensional and a two-dimensional array over \<^verbatim>\<open>x_y\<close>: xarray
  aligns the operands on the labels both have (inner join) and broadcasts over time.\<close>

definition mul_x_y :: "(nat \<times> real) list \<Rightarrow> (nat \<times> real list) list \<Rightarrow> (nat \<times> real list) list" where
  "mul_x_y capacity_da capfac_da =
     List.map_filter
       (\<lambda>(i, c). map_option (\<lambda>row. (i, map (\<lambda>f. c * f) row)) (map_of capfac_da i))
       capacity_da"

text \<open>\<^verbatim>\<open>da.sum(dim='x_y')\<close>: a scalar for a one-dimensional array, one value per time step
  for a two-dimensional one (zeros when no label is left).\<close>

definition sum_x_y_1d :: "(nat \<times> real) list \<Rightarrow> real" where
  "sum_x_y_1d da = sum_list (map snd da)"

definition sum_x_y_2d :: "nat \<Rightarrow> (nat \<times> real list) list \<Rightarrow> real list" where
  "sum_x_y_2d T da = map (\<lambda>t. sum_list (map (\<lambda>(i, row). row ! t) da)) [0..<T]"

text \<open>Indexing the first axis with a boolean mask.\<close>

definition select_mask :: "'a list \<Rightarrow> bool list \<Rightarrow> 'a list" where
  "select_mask da bs = map fst (filter snd (zip da bs))"

subsection \<open>The regional arrays (steps 2, 2b of both local functions)\<close>

text \<open>One cell of \<^verbatim>\<open>regional_capacity_da\<close> after
  \<^verbatim>\<open>.where(regional_ds.rasters == 1)\<close> and \<^verbatim>\<open>.where(regional_capacity_da > 0)\<close>.\<close>

definition cell_capacity :: "'r \<Rightarrow> 'r cell \<Rightarrow> real option" where
  "cell_capacity region c =
     (let v = xr_where (capacity c) (rasters c region = 1)
      in xr_where v (gt_0 v))"

text \<open>One cell of \<^verbatim>\<open>regional_capfac_da\<close> after \<^verbatim>\<open>.where(regional_ds.rasters == 1)\<close> and
  \<^verbatim>\<open>.where(regional_capacity_da > 0)\<close>; the capacity used is the one masked by the raster
  only, as in the source, where the capacity array is masked one line later.\<close>

definition cell_capfac :: "'r \<Rightarrow> 'r cell \<Rightarrow> real option list" where
  "cell_capfac region c =
     (let cap = xr_where (capacity c) (rasters c region = 1)
      in map (\<lambda>v. xr_where (xr_where v (rasters c region = 1)) (gt_0 cap)) (capfac c))"

definition regional_capacity_da :: "'r rasterized_ds \<Rightarrow> 'r \<Rightarrow> (nat \<times> real) list" where
  "regional_capacity_da ds region =
     dropna_1d (enumerate 0 (map (cell_capacity region) (cells ds)))"

definition regional_capfac_da :: "'r rasterized_ds \<Rightarrow> 'r \<Rightarrow> (nat \<times> real list) list" where
  "regional_capfac_da ds region =
     dropna_2d (enumerate 0 (map (cell_capfac region) (cells ds)))"

definition regional_power_da :: "'r rasterized_ds \<Rightarrow> 'r \<Rightarrow> (nat \<times> real list) list" where
  "regional_power_da ds region =
     mul_x_y (regional_capacity_da ds region) (regional_capfac_da ds region)"

subsection \<open>The result of one region\<close>

text \<open>The data of one region in a result dataset. In simple mode the capacity lives in an
  integer array (\<^verbatim>\<open>xr.DataArray(0, ...)\<close>) and there is one time series; in cluster mode
  the capacities are floats, one per \<^verbatim>\<open>TS_ids\<close> entry, and the time series array has one
  row per time step and one column per \<^verbatim>\<open>TS_ids\<close> entry. A dataset is the list of its
  \<^verbatim>\<open>region_ids\<close> labels, each with the data of that region.\<close>

datatype regional_repr =
  Simple_repr int "float64 list"
| Cluster_repr "real list" "float64 list list"

type_synonym 'r repr_ds = "('r \<times> regional_repr) list"

subsection \<open>Simple aggregation\<close>

text \<open>Stacking the capacity-factor array (step 2b (i)) reshapes it with one open dimension
  next to the time axis; on an empty time axis the reshape raises ValueError. Every other
  step of the simple aggregator returns.\<close>

definition simply_aggregate_RE_technology :: "'r rasterized_ds \<Rightarrow> 'r \<Rightarrow> error + 'r repr_ds" where
  "simply_aggregate_RE_technology ds region =
     (if n_timeSteps ds = 0 then Inl ValueError
      else let capacity_total = sum_x_y_1d (regional_capacity_da ds region);
               represented_capacities = astype_int64 capacity_total;
               power_total = sum_x_y_2d (n_timeSteps ds) (regional_power_da ds region);
               capfac_total = map (\<lambda>p. np_div p capacity_total) power_total
        in Inr [(region, Simple_repr represented_capacities capfac_total)])"

subsection \<open>Clustering and aggregation per cluster\<close>

text \<open>The loop of step 2e over the cluster numbers \<open>i\<close>, with the two result arrays as state.
  A boolean mask whose length differs from the indexed axis raises IndexError, and so does
  \<^verbatim>\<open>TS_ids[i]\<close> beyond the list.\<close>

fun aggregate_clusters ::
  "nat \<Rightarrow> nat \<Rightarrow> nat list \<Rightarrow> (nat \<times> real) list \<Rightarrow> (nat \<times> real list) list \<Rightarrow> nat list \<Rightarrow>
   real list \<times> float64 list list \<Rightarrow> error + (real list \<times> float64 list list)" where
  "aggregate_clusters T K labels capacity_da power_da [] st = Inr st"
| "aggregate_clusters T K labels capacity_da power_da (i # rest) (caps, ts) =
     (if length labels \<noteq> length capacity_da then Inl IndexError
      else let cluster_capacity_total =
                 sum_x_y_1d (select_mask capacity_da (map (\<lambda>l. l = i) labels))
        in if K \<le> i then Inl IndexError
      else if length labels \<noteq> length power_da then Inl IndexError
      else let cluster_power_total =
                 sum_x_y_2d T (select_mask power_da (map (\<lambda>l. l = i) labels));
               cluster_capfac_total =
                 map (\<lambda>p. np_div p cluster_capacity_total) cluster_power_total
        in aggregate_clusters T K labels capacity_da power_da rest
             (caps[i := cluster_capacity_total],
              map2 (\<lambda>row v. row[i := v]) ts cluster_capfac_total))"

text \<open>The local function: allocating the result arrays raises ValueError for a negative
  number of time series, stacking the capacity factors raises ValueError on an empty time
  axis (as in the simple aggregator), the clustering may raise, and so may the loop.\<close>

definition cluster_RE_technology ::
  "(int \<Rightarrow> real list list \<Rightarrow> error + nat list) \<Rightarrow> int \<Rightarrow> 'r rasterized_ds \<Rightarrow> 'r \<Rightarrow>
   error + 'r repr_ds" where
  "cluster_RE_technology fit n_timeSeries_perRegion ds region =
     (if n_timeSeries_perRegion < 0 then Inl ValueError
      else if n_timeSteps ds = 0 then Inl ValueError
      else let K = nat n_timeSeries_perRegion;
               represented_timeSeries = replicate (n_timeSteps ds) (replicate K (Finite 0));
               represented_capacities = replicate K 0
        in case fit n_timeSeries_perRegion (map snd (regional_capfac_da ds region)) of
             Inl e \<Rightarrow> Inl e
           | Inr labels \<Rightarrow>
               (case aggregate_clusters (n_timeSteps ds) K labels
                       (regional_capacity_da ds region) (regional_power_da ds region)
                       [0..<length (remdups labels)]
                       (represented_capacities, represented_timeSeries) of
                  Inl e \<Rightarrow> Inl e
                | Inr (caps, ts) \<Rightarrow> Inr [(region, Cluster_repr caps ts)]))"

subsection \<open>Gathering the tasks and merging the fragments\<close>

text \<open>\<^verbatim>\<open>client.gather(futures)\<close>: the results in the order of the futures, or the error of a
  failed task (the first one in that order).\<close>

fun gather :: "(error + 'a) list \<Rightarrow> error + 'a list" where
  "gather [] = Inr []"
| "gather (Inl e # fs) = Inl e"
| "gather (Inr x # fs) = (case gather fs of Inl e \<Rightarrow> Inl e | Inr xs \<Rightarrow> Inr (x # xs))"

text \<open>The one value of a list whose entries are all the same.\<close>

definition the_only :: "'a list \<Rightarrow> 'a option" where
  "the_only xs = (case remdups xs of [x] \<Rightarrow> Some x | _ \<Rightarrow> None)"

text \<open>\<^verbatim>\<open>xr.merge(objects)\<close> with its defaults (outer join, \<^verbatim>\<open>compat='no_conflicts'\<close>) on
  datasets indexed by \<^verbatim>\<open>region_ids\<close>. The joined index is the common index when all
  objects have the same one, and the sorted union of the labels otherwise. Objects that
  hold the same label must agree on its data; otherwise the merge raises MergeError.
  (xarray also fills a missing value of one object from another object that holds the same
  label; the fragments of one invocation never share a label, and the filling is not
  modelled.)\<close>

definition joined_index :: "('r::linorder \<times> 'v) list list \<Rightarrow> 'r list" where
  "joined_index objects =
     (if objects = [] then []
      else case the_only (map (map fst) objects) of
             Some index \<Rightarrow> index
           | None \<Rightarrow> sort (remdups (concat (map (map fst) objects))))"

definition merge_label :: "('r \<times> 'v) list list \<Rightarrow> 'r \<Rightarrow> error + ('r \<times> 'v)" where
  "merge_label objects l =
     (case the_only (List.map_filter (\<lambda>obj. map_of obj l) objects) of
        Some v \<Rightarrow> Inr (l, v)
      | None \<Rightarrow> Inl MergeError)"

definition xr_merge :: "('r::linorder \<times> 'v) list list \<Rightarrow> error + ('r \<times> 'v) list" where
  "xr_merge objects = gather (map (merge_label objects) (joined_index objects))"

subsection \<open>The entry point\<close>

definition represent_RE_technology ::
  "(int \<Rightarrow> real list list \<Rightarrow> error + nat list) \<Rightarrow> 'r::linorder rasterized_ds \<Rightarrow> int \<Rightarrow>
   error + 'r repr_ds" where
  "represent_RE_technology fit rasterized_RE_ds n_timeSeries_perRegion =
     (let futures =
            (if n_timeSeries_perRegion = 1
             then map (\<lambda>region. simply_aggregate_RE_technology rasterized_RE_ds region)
                    (region_ids rasterized_RE_ds)
             else map (\<lambda>region. cluster_RE_technology fit n_timeSeries_perRegion
                                  rasterized_RE_ds region)
                    (region_ids rasterized_RE_ds))
      in case gather futures of
           Inl e \<Rightarrow> Inl e
         | Inr results \<Rightarrow> xr_merge results)"

subsection \<open>Notions used to state the properties\<close>

text \<open>The filtered cells of a region, as the specification words them: the cells with
  \<^verbatim>\<open>rasters == 1\<close>, a strictly positive capacity and no missing value, each with its
  capacity and its capacity-factor series.\<close>

definition filtered_cells :: "'r rasterized_ds \<Rightarrow> 'r \<Rightarrow> (real \<times> real list) list" where
  "filtered_cells ds region =
     List.map_filter
       (\<lambda>c. if rasters c region = 1
            then (case capacity c of
                    None \<Rightarrow> None
                  | Some x \<Rightarrow> if 0 < x then map_option (Pair x) (those (capfac c)) else None)
            else None)
       (cells ds)"

text \<open>No cell that survives the filter on the capacity misses a capacity factor.\<close>

definition no_missing_capfac :: "'r rasterized_ds \<Rightarrow> 'r \<Rightarrow> bool" where
  "no_missing_capfac ds region =
     list_all (\<lambda>c. cell_capacity region c = None \<or> those (capfac c) \<noteq> None) (cells ds)"

text \<open>The capacity-factor array is rectangular: every cell has one value per time step.\<close>

definition wf_ds :: "'r rasterized_ds \<Rightarrow> bool" where
  "wf_ds ds = list_all (\<lambda>c. length (capfac c) = n_timeSteps ds) (cells ds)"


text \<open>The total capacity and the total power per time step of the cells labelled \<open>k\<close>, as
  the loop of step 2e computes them.\<close>

definition cluster_capacity :: "nat list \<Rightarrow> (nat \<times> real) list \<Rightarrow> nat \<Rightarrow> real" where
  "cluster_capacity labels capacity_da k =
     sum_x_y_1d (select_mask capacity_da (map (\<lambda>l. l = k) labels))"

definition cluster_power :: "nat \<Rightarrow> nat list \<Rightarrow> (nat \<times> real list) list \<Rightarrow> nat \<Rightarrow> real list" where
  "cluster_power T labels power_da k =
     sum_x_y_2d T (select_mask power_da (map (\<lambda>l. l = k) labels))"


subsection \<open>Example datasets\<close>

definition mk_cell :: "real option \<Rightarrow> real option list \<Rightarrow> nat \<Rightarrow> nat cell" where
  "mk_cell c f r = \<lparr>capacity = c, capfac = f, rasters = (\<lambda>x. if x = r then 1 else 0)\<rparr>"

text \<open>Two regions: region 0 with four cells of capacity 1 and the series \<open>[0.5, 0.5]\<close>,
  region 1 with capacities 2 and 3 and the series \<open>[0.1, 0.2]\<close> and \<open>[0.3, 0.4]\<close>.\<close>

definition ds_two_regions :: "nat rasterized_ds" where
  "ds_two_regions =
     \<lparr>n_timeSteps = 2, region_ids = [0, 1],
      cells = [mk_cell (Some 1) [Some (1/2), Some (1/2)] 0,
               mk_cell (Some 1) [Some (1/2), Some (1/2)] 0,
               mk_cell (Some 1) [Some (1/2), Some (1/2)] 0,
               mk_cell (Some 1) [Some (1/2), Some (1/2)] 0,
               mk_cell (Some 2) [Some (1/10), Some (2/10)] 1,
               mk_cell (Some 3) [Some (3/10), Some (4/10)] 1]\<rparr>"

text \<open>One region with two cells of capacity 0.5 and 0.25.\<close>

definition ds_frac :: "nat rasterized_ds" where
  "ds_frac =
     \<lparr>n_timeSteps = 1, region_ids = [0],
      cells = [mk_cell (Some (1/2)) [Some 1] 0, mk_cell (Some (1/4)) [Some 1] 0]\<rparr>"

text \<open>One region with two cells of capacity 1; the second cell misses its capacity factor
  at the second time step.\<close>

definition ds_nan :: "nat rasterized_ds" where
  "ds_nan =
     \<lparr>n_timeSteps = 2, region_ids = [0],
      cells = [mk_cell (Some 1) [Some (1/2), Some (1/2)] 0,
               mk_cell (Some 1) [Some (1/2), None] 0]\<rparr>"

text \<open>One region with one cell of capacity 1 whose capacity factor is missing at the one
  time step.\<close>

definition ds_missing :: "nat rasterized_ds" where
  "ds_missing =
     \<lparr>n_timeSteps = 1, region_ids = [0], cells = [mk_cell (Some 1) [None] 0]\<rparr>"

text \<open>One region none of whose cells has a positive capacity.\<close>

definition ds_empty :: "nat rasterized_ds" where
  "ds_empty =
     \<lparr>n_timeSteps = 2, region_ids = [0],
      cells = [mk_cell (Some 0) [Some (1/2), Some (1/2)] 0,
               mk_cell None [Some (1/2), Some 1] 0,
               mk_cell (Some 3) [Some (1/2), Some 1] 1]\<rparr>"

text \<open>A clustering that puts every sample into cluster 0, one that alternates between
  clusters 0 and 1, and one that rejects its input.\<close>

definition fit_one :: "int \<Rightarrow> real list list \<Rightarrow> error + nat list" where
  "fit_one K X = Inr (replicate (length X) 0)"


definition fit_raise :: "int \<Rightarrow> real list list \<Rightarrow> error + nat list" where
  "fit_raise K X = Inl ValueError"

section \<open>Properties\<close>

subsection \<open>Lists\<close>

lemma set_map_filter: "set (List.map_filter f xs) = {y. \<exists>x\<in>set xs. f x = Some y}"
  by (induction xs) (auto split: option.splits)


lemma map_filter_map: "List.map_filter g (map f xs) = List.map_filter (\<lambda>x. g (f x)) xs"
  by (induction xs) (auto split: option.splits)

lemma map_map_filter: "map h (List.map_filter k xs) = List.map_filter (\<lambda>x. map_option h (k x)) xs"
  by (induction xs) (auto split: option.splits)

lemma map_filter_cong:
  "(\<And>x. x \<in> set xs \<Longrightarrow> f x = g x) \<Longrightarrow> List.map_filter f xs = List.map_filter g xs"
  by (induction xs) (auto split: option.splits)

lemma length_map_filter: "length (List.map_filter f xs) = length (filter (\<lambda>x. f x \<noteq> None) xs)"
  by (simp add: map_filter_def)

lemma filter_length_eq_imp:
  assumes "\<And>x. P x \<Longrightarrow> Q x"
      and "length (filter P xs) = length (filter Q xs)"
      and "x \<in> set xs" and "Q x"
  shows "P x"
  using assms(2,3,4)
proof (induction xs)
  case Nil
  then show ?case by simp
next
  case (Cons y ys)
  have le: "length (filter P ys) \<le> length (filter Q ys)"
  proof -
    have "filter P ys = filter P (filter Q ys)"
      using assms(1) by (auto simp: filter_id_conv intro: filter_cong)
    then have "length (filter P ys) = length (filter P (filter Q ys))" by simp
    also have "\<dots> \<le> length (filter Q ys)" by (rule length_filter_le)
    finally show ?thesis .
  qed
  show ?case
  proof (cases "Q y")
    case True
    show ?thesis
    proof (cases "P y")
      case py: True
      with True Cons.prems(1) have "length (filter P ys) = length (filter Q ys)" by simp
      with Cons.IH Cons.prems(2,3) py show ?thesis by auto
    next
      case False
      with True Cons.prems(1) have "length (filter P ys) = Suc (length (filter Q ys))" by simp
      with le show ?thesis by simp
    qed
  next
    case False
    then have "\<not> P y" using assms(1) by blast
    with False Cons.prems(1) have "length (filter P ys) = length (filter Q ys)" by simp
    with Cons.IH Cons.prems(2,3) False show ?thesis by auto
  qed
qed

lemma distinct_set_singleton: "distinct ys \<Longrightarrow> set ys = {x} \<Longrightarrow> ys = [x]"
proof (cases ys)
  case Nil
  assume "set ys = {x}"
  with Nil show ?thesis by simp
next
  case (Cons a as)
  assume d: "distinct ys" and s: "set ys = {x}"
  from s Cons have a: "a = x" by auto
  from s Cons a have sub: "set as \<subseteq> {x}" by auto
  from d Cons a have "x \<notin> set as" by simp
  with sub have "as = []" by (cases as) auto
  with Cons a show ?thesis by simp
qed

subsection \<open>The one value of a list\<close>

lemma the_only_Some: "the_only xs = Some x \<longleftrightarrow> set xs = {x}"
proof
  assume "the_only xs = Some x"
  then have "remdups xs = [x]"
    by (auto simp: the_only_def split: list.splits)
  then have "set (remdups xs) = {x}" by simp
  then show "set xs = {x}" by simp
next
  assume s: "set xs = {x}"
  have d: "distinct (remdups xs)" by simp
  have "set (remdups xs) = {x}" using s by simp
  with d have "remdups xs = [x]"
    by (rule distinct_set_singleton)
  then show "the_only xs = Some x" by (simp add: the_only_def)
qed

lemma the_only_cong: "set xs = set ys \<Longrightarrow> the_only xs = the_only ys"
proof (cases "the_only xs")
  case None
  assume s: "set xs = set ys"
  show ?thesis
  proof (cases "the_only ys")
    case None
    with \<open>the_only xs = None\<close> show ?thesis by simp
  next
    case (Some y)
    then have "set ys = {y}" by (simp add: the_only_Some)
    with s have "the_only xs = Some y" by (simp add: the_only_Some)
    with None show ?thesis by simp
  qed
next
  case (Some x)
  assume s: "set xs = set ys"
  from Some have "set xs = {x}" by (simp add: the_only_Some)
  with s have "the_only ys = Some x" by (simp add: the_only_Some)
  with Some show ?thesis by simp
qed

subsection \<open>Gathering and merging\<close>

lemma gather_map_Inr_id: "gather (map Inr xs) = Inr xs"
  by (induction xs) auto

lemma gather_Inr_D: "gather fs = Inr xs \<Longrightarrow> fs = map Inr xs"
proof (induction fs arbitrary: xs rule: gather.induct)
  case 1
  then show ?case by simp
next
  case (2 e fs)
  then show ?case by simp
next
  case (3 x fs)
  then show ?case by (cases "gather fs") auto
qed

lemma gather_Inr_iff: "gather fs = Inr xs \<longleftrightarrow> fs = map Inr xs"
  using gather_Inr_D gather_map_Inr_id by blast

lemma gather_map_Inr: "gather (map (\<lambda>x. Inr (f x)) xs) = Inr (map f xs)"
  using gather_map_Inr_id [of "map f xs"] by (simp add: comp_def)

lemma merge_label_Inr_fst: "merge_label objects l = Inr x \<Longrightarrow> fst x = l"
  by (auto simp: merge_label_def split: option.splits)

lemma map_merge_label_fst:
  "map (merge_label objects) index = map Inr out \<Longrightarrow> map fst out = index"
proof (induction index arbitrary: out)
  case Nil
  then show ?case by simp
next
  case (Cons l index)
  then obtain x xs where out: "out = x # xs" by (cases out) auto
  with Cons.prems have "merge_label objects l = Inr x"
    and "map (merge_label objects) index = map Inr xs" by simp_all
  then show ?case using out Cons.IH by (simp add: merge_label_Inr_fst)
qed

lemma gather_merge_label_fst:
  "gather (map (merge_label objects) index) = Inr out \<Longrightarrow> map fst out = index"
  by (rule map_merge_label_fst) (rule gather_Inr_D)

lemma xr_merge_fst: "xr_merge objects = Inr out \<Longrightarrow> map fst out = joined_index objects"
  unfolding xr_merge_def by (rule gather_merge_label_fst)

lemma concat_map_singleton: "concat (map (\<lambda>r. [r]) rs) = rs"
  by (induction rs) auto

lemma joined_index_singletons:
  assumes "map (map fst) results = map (\<lambda>r. [r]) rs"
  shows "set (joined_index results) = set rs \<and> distinct (joined_index results)"
proof (cases "results = []")
  case True
  with assms have "rs = []" by simp
  with True show ?thesis by (simp add: joined_index_def)
next
  case False
  have len: "length results = length rs" using assms by (rule map_eq_imp_length_eq)
  show ?thesis
  proof (cases "the_only (map (map fst) results)")
    case None
    have "joined_index results = sort (remdups (concat (map (map fst) results)))"
      using None False by (simp add: joined_index_def)
    also have "\<dots> = sort (remdups rs)"
      unfolding assms concat_map_singleton ..
    finally show ?thesis by simp
  next
    case (Some index)
    then have "set (map (map fst) results) = {index}"
      by (simp only: the_only_Some)
    then have s: "set (map (\<lambda>r. [r]) rs) = {index}"
      unfolding assms .
    from False len have "rs \<noteq> []" by auto
    then obtain r0 where r0: "r0 \<in> set rs" by (cases rs) auto
    then have "[r0] \<in> (\<lambda>r. [r]) ` set rs" by (rule imageI)
    then have "[r0] \<in> set (map (\<lambda>r. [r]) rs)" by (simp only: set_map)
    then have "[r0] \<in> {index}" unfolding s .
    then have i: "index = [r0]" by simp
    have all: "r = r0" if "r \<in> set rs" for r
    proof -
      from that have "[r] \<in> (\<lambda>r. [r]) ` set rs" by (rule imageI)
      then have "[r] \<in> set (map (\<lambda>r. [r]) rs)" by (simp only: set_map)
      then have "[r] \<in> {index}" unfolding s .
      then show ?thesis using i by simp
    qed
    have "set rs = {r0}"
    proof
      show "set rs \<subseteq> {r0}"
      proof
        fix r assume "r \<in> set rs"
        then have "r = r0" by (rule all)
        then show "r \<in> {r0}" by simp
      qed
      show "{r0} \<subseteq> set rs" using r0 by simp
    qed
    then have 1: "set index = set rs" using i by simp
    have 2: "distinct index" using i by simp
    have "joined_index results = index"
      using Some False by (simp add: joined_index_def)
    with 1 2 show ?thesis by simp
  qed
qed

lemma simply_aggregate_fst:
  "simply_aggregate_RE_technology ds region = Inr frag \<Longrightarrow> map fst frag = [region]"
  by (auto simp: simply_aggregate_RE_technology_def Let_def split: if_splits)

lemma cluster_Inr_fst:
  assumes "cluster_RE_technology fit K ds region = Inr frag"
  shows "map fst frag = [region]"
proof (cases "fit K (map snd (regional_capfac_da ds region))")
  case (Inl e)
  with assms show ?thesis
    by (simp add: cluster_RE_technology_def Let_def split: if_splits)
next
  case (Inr labels)
  show ?thesis
  proof (cases "aggregate_clusters (n_timeSteps ds) (nat K) labels
                  (regional_capacity_da ds region) (regional_power_da ds region)
                  [0..<length (remdups labels)]
                  (replicate (nat K) 0, replicate (n_timeSteps ds) (replicate (nat K) (Finite 0)))")
    case (Inl e)
    with assms Inr show ?thesis
      by (simp add: cluster_RE_technology_def Let_def split: if_splits)
  next
    case r: (Inr st)
    with assms Inr show ?thesis
      by (cases st) (auto simp add: cluster_RE_technology_def Let_def split: if_splits)
  qed
qed


lemma gather_fragments_index:
  assumes "gather (map task rs) = Inr results"
      and "\<And>r frag. task r = Inr frag \<Longrightarrow> map fst frag = [r]"
  shows "map (map fst) results = map (\<lambda>r. [r]) rs"
proof -
  from assms(1) have eq: "map task rs = map Inr results" by (simp add: gather_Inr_iff)
  then have len: "length rs = length results" by (metis length_map)
  show ?thesis
  proof (rule nth_equalityI)
    show "length (map (map fst) results) = length (map (\<lambda>r. [r]) rs)" using len by simp
  next
    fix i assume "i < length (map (map fst) results)"
    then have i: "i < length results" "i < length rs" using len by simp_all
    from eq have "map task rs ! i = map Inr results ! i" by simp
    with i have "task (rs ! i) = Inr (results ! i)" by simp
    then have "map fst (results ! i) = [rs ! i]" by (rule assms(2))
    with i show "map (map fst) results ! i = map (\<lambda>r. [r]) rs ! i" by simp
  qed
qed

text \<open>
  Claim C7. For every invocation that returns a dataset, the \<^verbatim>\<open>region_ids\<close> coordinate of
  the merged output holds exactly the region ids of the rasterized input: every region of
  the input appears, no other label appears, and no label appears twice. The labels of the
  input coordinate are taken to be distinct, as \<^verbatim>\<open>sel(region_ids=region)\<close> selects one
  region only then. In simple mode the invocation returns whenever the time axis is not
  empty (\<open>represent_simple_returns\<close> below).
\<close>

theorem region_completeness:
  assumes "distinct (region_ids ds)"
      and "represent_RE_technology fit ds n = Inr out"
  shows "set (map fst out) = set (region_ids ds) \<and> distinct (map fst out)"
proof -
  let ?task = "\<lambda>region. if n = 1 then simply_aggregate_RE_technology ds region
                         else cluster_RE_technology fit n ds region"
  have fut: "(if n = 1
              then map (\<lambda>region. simply_aggregate_RE_technology ds region) (region_ids ds)
              else map (\<lambda>region. cluster_RE_technology fit n ds region) (region_ids ds))
             = map ?task (region_ids ds)"
    by simp
  from assms(2) obtain results where
    g: "gather (map ?task (region_ids ds)) = Inr results" and m: "xr_merge results = Inr out"
    unfolding represent_RE_technology_def Let_def fut
    by (cases "gather (map ?task (region_ids ds))") auto
  have "map fst frag = [r]" if "?task r = Inr frag" for r frag
    using that by (auto dest: simply_aggregate_fst cluster_Inr_fst split: if_splits)
  with g have "map (map fst) results = map (\<lambda>r. [r]) (region_ids ds)"
    by (rule gather_fragments_index)
  then have "set (joined_index results) = set (region_ids ds) \<and> distinct (joined_index results)"
    by (rule joined_index_singletons)
  with m show ?thesis by (simp add: xr_merge_fst)
qed

subsection \<open>The merge does not depend on the order of the fragments\<close>


lemma joined_index_mset:
  assumes "mset a = mset b"
  shows "joined_index a = joined_index b"
proof -
  from assms have s: "set a = set b" by (rule mset_eq_setD)
  from assms have e: "a = [] \<longleftrightarrow> b = []" by (metis mset_zero_iff)
  from s have 1: "set (map (map fst) a) = set (map (map fst) b)" by simp
  from s have 2: "set (concat (map (map fst) a)) = set (concat (map (map fst) b))" by simp
  have 3: "sort (remdups (concat (map (map fst) a))) = sort (remdups (concat (map (map fst) b)))"
    using 2 by (metis sorted_list_of_set_sort_remdups)
  show ?thesis
    unfolding joined_index_def using e 3 the_only_cong [OF 1] by (simp split: option.splits)
qed

lemma merge_label_set:
  assumes "set a = set b"
  shows "merge_label a l = merge_label b l"
proof -
  have "set (List.map_filter (\<lambda>obj. map_of obj l) a) = set (List.map_filter (\<lambda>obj. map_of obj l) b)"
    using assms by (simp add: set_map_filter)
  then have "the_only (List.map_filter (\<lambda>obj. map_of obj l) a) =
             the_only (List.map_filter (\<lambda>obj. map_of obj l) b)"
    by (rule the_only_cong)
  then show ?thesis unfolding merge_label_def by simp
qed


text \<open>
  Claim C8. The merged dataset does not depend on the order of the fragments: merging any
  permutation of the same fragments gives the same result (the same dataset, or the same
  failure).
\<close>

theorem merge_order_independent:
  assumes "mset objects = mset objects'"
  shows "xr_merge objects = xr_merge objects'"
proof -
  from assms have "set objects = set objects'" by (rule mset_eq_setD)
  then have "merge_label objects = merge_label objects'"
    by (intro ext merge_label_set)
  with joined_index_mset [OF assms] show ?thesis by (simp add: xr_merge_def)
qed

subsection \<open>The regional arrays, cell by cell\<close>

lemma cell_capacity_Some_iff:
  "cell_capacity region c = Some x \<longleftrightarrow> rasters c region = 1 \<and> capacity c = Some x \<and> 0 < x"
  by (auto simp: cell_capacity_def xr_where_def gt_0_def Let_def split: option.splits if_splits)

lemma cell_capfac_kept:
  "cell_capacity region c = Some x \<Longrightarrow> cell_capfac region c = capfac c"
  by (auto simp: cell_capacity_def cell_capfac_def xr_where_def gt_0_def Let_def
      split: option.splits if_splits)

lemma map_snd_dropna_1d:
  "map snd (dropna_1d (enumerate n vs)) = List.map_filter (\<lambda>v. v) vs"
  by (induction vs arbitrary: n) (auto simp: dropna_1d_def split: option.splits)

lemma length_dropna_2d:
  "length (dropna_2d (enumerate n rows)) = length (List.map_filter those rows)"
  by (induction rows arbitrary: n) (auto simp: dropna_2d_def split: option.splits)

lemma capacity_values:
  "map snd (regional_capacity_da ds region) = List.map_filter (cell_capacity region) (cells ds)"
  by (simp add: regional_capacity_da_def map_snd_dropna_1d map_filter_map)

lemma capacity_positive:
  assumes "x \<in> set (map snd (regional_capacity_da ds region))"
  shows "0 < x"
proof -
  from assms obtain c where "cell_capacity region c = Some x"
    unfolding capacity_values set_map_filter by blast
  then show ?thesis by (simp add: cell_capacity_Some_iff)
qed

lemma sum_list_pos_zero:
  fixes xs :: "real list"
  assumes "\<And>x. x \<in> set xs \<Longrightarrow> 0 < x" and "sum_list xs = 0"
  shows "xs = []"
proof (cases xs)
  case Nil
  then show ?thesis .
next
  case (Cons y ys)
  have "0 \<le> sum_list ys"
    by (rule sum_list_nonneg) (use assms(1) Cons in force)
  moreover have "0 < y" using assms(1) Cons by simp
  ultimately have "0 < sum_list xs" using Cons by simp
  with assms(2) show ?thesis by simp
qed

lemma capacity_total_zero:
  assumes "sum_x_y_1d (regional_capacity_da ds region) = 0"
  shows "regional_capacity_da ds region = []"
proof -
  have "map snd (regional_capacity_da ds region) = []"
    using assms capacity_positive [of _ ds region]
    unfolding sum_x_y_1d_def by (intro sum_list_pos_zero) 
  then show ?thesis by simp
qed

lemma map_of_dropna_2d:
  "map_of (dropna_2d (enumerate n rows)) i =
     (if n \<le> i \<and> i < n + length rows then those (rows ! (i - n)) else None)"
proof (induction rows arbitrary: n)
  case Nil
  show ?case by (auto simp: dropna_2d_def)
next
  case (Cons row rows)
  have step: "dropna_2d (enumerate n (row # rows)) =
                (case those row of None \<Rightarrow> dropna_2d (enumerate (Suc n) rows)
                 | Some r \<Rightarrow> (n, r) # dropna_2d (enumerate (Suc n) rows))"
    by (simp add: dropna_2d_def split: option.splits)
  show ?case
  proof (cases "i = n")
    case True
    then show ?thesis
      unfolding step using Cons.IH [of "Suc n"] by (simp split: option.splits)
  next
    case False
    then have "map_of (dropna_2d (enumerate n (row # rows))) i =
               map_of (dropna_2d (enumerate (Suc n) rows)) i"
      unfolding step by (simp split: option.splits)
    also have "\<dots> = (if Suc n \<le> i \<and> i < Suc n + length rows
                        then those (rows ! (i - Suc n)) else None)"
      by (rule Cons.IH)
    also have "\<dots> = (if n \<le> i \<and> i < n + length (row # rows)
                        then those ((row # rows) ! (i - n)) else None)"
      using False by (auto simp: nth_Cons')
    finally show ?thesis .
  qed
qed

lemma mul_x_y_cells:
  assumes "\<And>j. j < length cs \<Longrightarrow> map_of cf (n + j) = those (g (cs ! j))"
  shows "map snd (mul_x_y (dropna_1d (enumerate n (map f cs))) cf) =
           List.map_filter
             (\<lambda>c. case f c of None \<Rightarrow> None
                  | Some x \<Rightarrow> map_option (map (\<lambda>v. x * v)) (those (g c))) cs"
  using assms
proof (induction cs arbitrary: n)
  case Nil
  show ?case by (simp add: mul_x_y_def dropna_1d_def)
next
  case (Cons c cs)
  have head: "map_of cf n = those (g c)" using Cons.prems [of 0] by simp
  have "map_of cf (Suc n + j) = those (g (cs ! j))" if "j < length cs" for j
    using Cons.prems [of "Suc j"] that by simp
  then have IH: "map snd (mul_x_y (dropna_1d (enumerate (Suc n) (map f cs))) cf) =
           List.map_filter
             (\<lambda>c. case f c of None \<Rightarrow> None
                  | Some x \<Rightarrow> map_option (map (\<lambda>v. x * v)) (those (g c))) cs"
    by (rule Cons.IH)
  show ?case
  proof (cases "f c")
    case None
    then show ?thesis using IH by (simp add: dropna_1d_def mul_x_y_def)
  next
    case (Some x)
    then show ?thesis using IH head
      by (cases "those (g c)") (simp_all add: dropna_1d_def mul_x_y_def)
  qed
qed

lemma power_values:
  "map snd (regional_power_da ds region) =
     List.map_filter
       (\<lambda>c. case cell_capacity region c of None \<Rightarrow> None
            | Some x \<Rightarrow> map_option (map (\<lambda>v. x * v)) (those (cell_capfac region c)))
       (cells ds)"
  unfolding regional_power_da_def regional_capacity_da_def regional_capfac_da_def
  by (rule mul_x_y_cells) (simp add: map_of_dropna_2d)

lemma power_filtered_cells:
  "map snd (regional_power_da ds region) =
     map (\<lambda>(x, row). map (\<lambda>v. x * v) row) (filtered_cells ds region)"
proof -
  have "(case cell_capacity region c of None \<Rightarrow> None
         | Some x \<Rightarrow> map_option (map (\<lambda>v. x * v)) (those (cell_capfac region c))) =
        map_option (\<lambda>(x, row). map (\<lambda>v. x * v) row)
          (if rasters c region = 1
           then (case capacity c of None \<Rightarrow> None
                 | Some x \<Rightarrow> if 0 < x then map_option (Pair x) (those (capfac c)) else None)
           else None)" for c :: "'a cell"
  proof (cases "cell_capacity region c")
    case None
    then show ?thesis
      using cell_capacity_Some_iff [of region c]
      by (auto split: option.splits simp: option.map_comp comp_def)
  next
    case (Some x)
    then show ?thesis
      using cell_capacity_Some_iff [of region c x] cell_capfac_kept [of region c x]
      by (auto simp: option.map_comp comp_def)
  qed
  then show ?thesis
    by (simp add: power_values filtered_cells_def map_map_filter)
qed

lemma capacity_filtered_cells:
  assumes "length (regional_power_da ds region) = length (regional_capacity_da ds region)"
  shows "map snd (regional_capacity_da ds region) = map fst (filtered_cells ds region)"
proof -
  let ?h = "\<lambda>c. case cell_capacity region c of None \<Rightarrow> None
            | Some x \<Rightarrow> map_option (map (\<lambda>v. x * v)) (those (cell_capfac region c))"
  let ?filt = "\<lambda>c. if rasters c region = 1
           then (case capacity c of None \<Rightarrow> None
                 | Some x \<Rightarrow> if 0 < x then map_option (Pair x) (those (capfac c)) else None)
           else None"
  have "length (map snd (regional_power_da ds region)) =
        length (map snd (regional_capacity_da ds region))"
    using assms by simp
  then have len: "length (filter (\<lambda>c. ?h c \<noteq> None) (cells ds)) =
                  length (filter (\<lambda>c. cell_capacity region c \<noteq> None) (cells ds))"
    unfolding power_values capacity_values length_map_filter .
  have imp: "cell_capacity region c \<noteq> None" if "?h c \<noteq> None" for c :: "'a cell"
    using that by (cases "cell_capacity region c") simp_all
  have all: "?h c \<noteq> None"
    if "c \<in> set (cells ds)" and "cell_capacity region c \<noteq> None" for c
    using imp len that
    by (rule filter_length_eq_imp [where P = "\<lambda>c. ?h c \<noteq> None"
          and Q = "\<lambda>c. cell_capacity region c \<noteq> None"])
  have point: "cell_capacity region c = map_option fst (?filt c)" if "c \<in> set (cells ds)" for c
  proof (cases "cell_capacity region c")
    case None
    then show ?thesis
      using cell_capacity_Some_iff [of region c]
      by (auto split: option.splits)
  next
    case (Some x)
    with all [OF that] obtain row where "those (cell_capfac region c) = Some row"
      by (cases "those (cell_capfac region c)") auto
    then have "those (capfac c) = Some row"
      using cell_capfac_kept [OF Some] by simp
    with Some show ?thesis
      using cell_capacity_Some_iff [of region c x] by simp
  qed
  have "map snd (regional_capacity_da ds region) =
        List.map_filter (cell_capacity region) (cells ds)"
    by (rule capacity_values)
  also have "\<dots> = List.map_filter (\<lambda>c. map_option fst (?filt c)) (cells ds)"
    by (rule map_filter_cong) (rule point)
  also have "\<dots> = map fst (filtered_cells ds region)"
    by (simp add: filtered_cells_def map_map_filter)
  finally show ?thesis .
qed

subsection \<open>The loop over the clusters\<close>

lemma aggregate_clusters_Cons:
  "aggregate_clusters T K labels cap pw (i # ks) (caps, ts) =
     (if length labels = length cap \<and> i < K \<and> length labels = length pw
      then aggregate_clusters T K labels cap pw ks
             (caps[i := cluster_capacity labels cap i],
              map2 (\<lambda>row v. row[i := v]) ts
                (map (\<lambda>p. np_div p (cluster_capacity labels cap i))
                   (cluster_power T labels pw i)))
      else Inl IndexError)"
  by (simp add: Let_def cluster_capacity_def cluster_power_def)




lemma aggregate_clusters_bound:
  "aggregate_clusters T K labels cap pw ks (caps, ts) = Inr st \<Longrightarrow> list_all (\<lambda>i. i < K) ks"
proof (induction ks arbitrary: caps ts)
  case Nil
  then show ?case by simp
next
  case (Cons i ks)
  from Cons.prems have "i < K" and
    "aggregate_clusters T K labels cap pw ks
       (caps[i := cluster_capacity labels cap i],
        map2 (\<lambda>row v. row[i := v]) ts
          (map (\<lambda>p. np_div p (cluster_capacity labels cap i))
             (cluster_power T labels pw i))) = Inr st"
    unfolding aggregate_clusters_Cons by (simp_all split: if_splits)
  with Cons.IH show ?case by simp
qed

lemma aggregate_clusters_returns:
  assumes "length labels = length cap" and "length labels = length pw"
      and "list_all (\<lambda>i. i < K) ks"
  shows "\<exists>st. aggregate_clusters T K labels cap pw ks (caps, ts) = Inr st"
  using assms(3)
proof (induction ks arbitrary: caps ts)
  case Nil
  show ?case by simp
next
  case (Cons i ks)
  then show ?case using assms(1,2)
    by (simp add: aggregate_clusters_Cons del: aggregate_clusters.simps)
qed





subsection \<open>Sums over the clusters\<close>







lemma sum_list_pos_nonempty:
  fixes xs :: "real list"
  assumes "\<And>x. x \<in> set xs \<Longrightarrow> 0 < x" and "xs \<noteq> []"
  shows "0 < sum_list xs"
proof -
  have "sum_list xs \<noteq> 0" using sum_list_pos_zero [of xs] assms by blast
  moreover have "0 \<le> sum_list xs"
    by (rule sum_list_nonneg) (use assms(1) in force)
  ultimately show ?thesis by simp
qed



lemma those_length: "those xs = Some ys \<Longrightarrow> length ys = length xs"
  by (induction xs arbitrary: ys) (auto split: option.splits)

lemma filtered_cells_length:
  assumes "wf_ds ds" and "(x, row) \<in> set (filtered_cells ds region)"
  shows "length row = n_timeSteps ds"
proof -
  from assms(2) obtain c where c: "c \<in> set (cells ds)" and "those (capfac c) = Some row"
    unfolding filtered_cells_def set_map_filter
    by (auto split: if_splits option.splits)
  then have "length row = length (capfac c)" by (simp add: those_length)
  with assms(1) c show ?thesis by (simp add: wf_ds_def list_all_iff)
qed








lemma cluster_returns:
  assumes "0 \<le> n \<and> 0 < n_timeSteps ds"
      and "fit n (map snd (regional_capfac_da ds region)) = Inr labels"
      and "length (remdups labels) \<le> nat n"
      and "length labels = length (regional_capacity_da ds region)"
      and "length labels = length (regional_power_da ds region)"
  shows "\<exists>out. cluster_RE_technology fit n ds region = Inr out"
proof -
  have "list_all (\<lambda>i. i < nat n) [0..<length (remdups labels)]"
    using assms(3) by (simp add: list_all_iff)
  with assms(4,5) obtain st where
    "aggregate_clusters (n_timeSteps ds) (nat n) labels (regional_capacity_da ds region)
       (regional_power_da ds region) [0..<length (remdups labels)]
       (replicate (nat n) 0, replicate (n_timeSteps ds) (replicate (nat n) (Finite 0))) = Inr st"
    using aggregate_clusters_returns by blast
  with assms(1,2) show ?thesis
    by (cases st) (simp add: cluster_RE_technology_def Let_def)
qed




subsection \<open>Failure and success of the entry point\<close>

lemma gather_Inl:
  assumes "Inl e \<in> set fs"
  shows "\<exists>e'. gather fs = Inl e'"
proof (cases "gather fs")
  case (Inl e')
  then show ?thesis by blast
next
  case (Inr xs)
  then have "fs = map Inr xs" by (rule gather_Inr_D)
  with assms show ?thesis by auto
qed

lemma xr_merge_singletons:
  assumes "\<And>r. r \<in> set rs \<Longrightarrow> frag r = [(r, v r)]"
  shows "xr_merge (map frag rs) = Inr (map (\<lambda>l. (l, v l)) (joined_index (map frag rs)))"
proof -
  let ?results = "map frag rs"
  have "map (map fst) ?results = map (\<lambda>r. [r]) rs"
    using assms by simp
  then have idx: "set (joined_index ?results) = set rs"
    using joined_index_singletons by blast
  have lab: "merge_label ?results l = Inr (l, v l)" if l: "l \<in> set rs" for l
  proof -
    have "set (List.map_filter (\<lambda>obj. map_of obj l) ?results) = {v l}"
    proof (intro equalityI subsetI)
      fix y assume "y \<in> set (List.map_filter (\<lambda>obj. map_of obj l) ?results)"
      then obtain r where r: "r \<in> set rs" and "map_of (frag r) l = Some y"
        by (auto simp: set_map_filter)
      with assms [OF r] show "y \<in> {v l}" by (simp split: if_splits)
    next
      fix y assume "y \<in> {v l}"
      then have "map_of (frag l) l = Some y" using assms [OF l] by simp
      with l show "y \<in> set (List.map_filter (\<lambda>obj. map_of obj l) ?results)"
        by (auto simp: set_map_filter)
    qed
    then have "the_only (List.map_filter (\<lambda>obj. map_of obj l) ?results) = Some (v l)"
      by (simp only: the_only_Some)
    then show ?thesis by (simp add: merge_label_def)
  qed
  have "map (merge_label ?results) (joined_index ?results) =
        map (\<lambda>l. Inr (l, v l)) (joined_index ?results)"
    using lab idx by (intro map_cong refl) simp
  then show ?thesis
    unfolding xr_merge_def by (simp only: gather_map_Inr)
qed

lemma represent_simple_returns:
  assumes "0 < n_timeSteps ds" and "distinct (region_ids ds)"
  shows "\<exists>out. represent_RE_technology fit ds 1 = Inr out"
proof -
  let ?v = "\<lambda>r. Simple_repr (astype_int64 (sum_x_y_1d (regional_capacity_da ds r)))
              (map (\<lambda>p. np_div p (sum_x_y_1d (regional_capacity_da ds r)))
                 (sum_x_y_2d (n_timeSteps ds) (regional_power_da ds r)))"
  let ?frag = "\<lambda>r. [(r, ?v r)]"
  have "simply_aggregate_RE_technology ds r = Inr (?frag r)" for r
    using assms(1) by (simp add: simply_aggregate_RE_technology_def Let_def)
  then have "map (\<lambda>region. simply_aggregate_RE_technology ds region) (region_ids ds) =
             map (\<lambda>r. Inr (?frag r)) (region_ids ds)"
    by simp
  then have g: "gather (map (\<lambda>region. simply_aggregate_RE_technology ds region) (region_ids ds)) =
             Inr (map ?frag (region_ids ds))"
    by (simp only: gather_map_Inr)
  have "\<exists>out. xr_merge (map ?frag (region_ids ds)) = Inr out"
    using xr_merge_singletons [of "region_ids ds" ?frag ?v] by blast
  with g show ?thesis
    by (simp add: represent_RE_technology_def)
qed


text \<open>
  Claim C6, as the code has it. The cluster aggregator has no check of the requested number
  of clusters against the number of surviving cells and no error of its own for it. A
  negative number fails with ValueError when the result arrays are allocated (and an empty
  time axis when the capacity factors are stacked). Otherwise the clustering is always
  called, on all surviving rows; when it raises, its error is the failure of the task, and
  the whole call fails.
\<close>

theorem cluster_count_unguarded:
  assumes "region \<in> set (region_ids ds)" and "n \<noteq> 1"
      and "n < 0 \<or> fit n (map snd (regional_capfac_da ds region)) = Inl e"
  shows "cluster_RE_technology fit n ds region =
           Inl (if n < 0 \<or> n_timeSteps ds = 0 then ValueError else e) \<and>
         (\<exists>e'. represent_RE_technology fit ds n = Inl e')"
proof -
  have c: "cluster_RE_technology fit n ds region =
             Inl (if n < 0 \<or> n_timeSteps ds = 0 then ValueError else e)"
    using assms(3) by (auto simp: cluster_RE_technology_def Let_def)
  then have "Inl (if n < 0 \<or> n_timeSteps ds = 0 then ValueError else e) \<in>
             set (map (\<lambda>region. cluster_RE_technology fit n ds region) (region_ids ds))"
    using assms(1) by force
  then obtain e' where
    "gather (map (\<lambda>region. cluster_RE_technology fit n ds region) (region_ids ds)) = Inl e'"
    using gather_Inl by blast
  then have "represent_RE_technology fit ds n = Inl e'"
    using assms(2) by (simp add: represent_RE_technology_def)
  with c show ?thesis by blast
qed

theorem cluster_count_unguarded_witness:
  "0 \<in> set (region_ids ds_frac) \<and> (3::int) \<noteq> 1 \<and>
   ((3::int) < 0 \<or> fit_raise 3 (map snd (regional_capfac_da ds_frac 0)) = Inl ValueError) \<and>
   cluster_RE_technology fit_raise 3 ds_frac 0 = Inl ValueError \<and>
   (\<exists>e'. represent_RE_technology fit_raise ds_frac 3 = Inl e')"
proof -
  have h1: "(0::nat) \<in> set (region_ids ds_frac)" by (simp add: ds_frac_def)
  have h2: "(3::int) \<noteq> 1" by simp
  have h3: "(3::int) < 0 \<or> fit_raise 3 (map snd (regional_capfac_da ds_frac 0)) = Inl ValueError"
    by (simp add: fit_raise_def)
  from cluster_count_unguarded
         [of 0 ds_frac 3 fit_raise ValueError, OF h1 h2 h3]
  have "cluster_RE_technology fit_raise 3 ds_frac 0 = Inl ValueError \<and>
        (\<exists>e'. represent_RE_technology fit_raise ds_frac 3 = Inl e')"
    by simp
  with h1 h2 h3 show ?thesis by blast
qed

text \<open>
  The claim as stated fails: with three clusters requested for a region of two surviving
  cells, the outcome is the one of the clustering. When the clustering raises, the call
  fails with that error; when it returns labels, the call returns, and the clusters that
  no label names stay filled with zeros.
\<close>

theorem cluster_count_not_rejected:
  "length (regional_capfac_da ds_frac 0) = 2 \<and>
   represent_RE_technology fit_raise ds_frac 3 = Inl ValueError \<and>
   represent_RE_technology fit_one ds_frac 3 =
     Inr [(0, Cluster_repr [3/4, 0, 0] [[Finite 1, Finite 0, Finite 0]])]"
proof (intro conjI)
  show "length (regional_capfac_da ds_frac 0) = 2" by code_simp
  show "represent_RE_technology fit_raise ds_frac 3 = Inl ValueError" by code_simp
  show "represent_RE_technology fit_one ds_frac 3 =
          Inr [(0, Cluster_repr [3/4, 0, 0] [[Finite 1, Finite 0, Finite 0]])]"
    by code_simp
qed

subsection \<open>Simple aggregation of a region without capacity\<close>

text \<open>When no cell of the region survives the filter on the capacity, the total capacity is
  0, and on a time axis that is not empty the simple aggregator returns: the capacity of
  the result is 0 and its time series is NaN at every time step (\<open>0/0\<close>).\<close>

lemma simple_zero_capacity_nan:
  assumes "sum_x_y_1d (regional_capacity_da ds region) = 0" and "0 < n_timeSteps ds"
  shows "simply_aggregate_RE_technology ds region =
           Inr [(region, Simple_repr 0 (replicate (n_timeSteps ds) NaN))]"
proof -
  from assms(1) have "regional_capacity_da ds region = []" by (rule capacity_total_zero)
  then show ?thesis using assms(2)
    by (simp add: simply_aggregate_RE_technology_def regional_power_da_def mul_x_y_def
        sum_x_y_1d_def sum_x_y_2d_def np_div_def astype_int64_def map_replicate_const)
qed

lemma simple_zero_capacity_nan_example:
  "simply_aggregate_RE_technology ds_empty 0 = Inr [(0, Simple_repr 0 [NaN, NaN])]"
  by code_simp

subsection \<open>Witnesses of the conservation and merge properties\<close>



theorem region_completeness_witness:
  "distinct (region_ids ds_two_regions) \<and>
   represent_RE_technology fit_one ds_two_regions 1 =
     Inr [(0, Simple_repr 4 [Finite (1/2), Finite (1/2)]),
          (1, Simple_repr 5 [Finite (11/50), Finite (8/25)])] \<and>
   set (map fst [(0::nat, Simple_repr 4 [Finite (1/2), Finite (1/2)]),
                 (1, Simple_repr 5 [Finite (11/50), Finite (8/25)])]) =
     set (region_ids ds_two_regions) \<and>
   distinct (map fst [(0::nat, Simple_repr 4 [Finite (1/2), Finite (1/2)]),
                      (1, Simple_repr 5 [Finite (11/50), Finite (8/25)])])"
proof -
  have h1: "distinct (region_ids ds_two_regions)" by (simp add: ds_two_regions_def)
  have h2: "represent_RE_technology fit_one ds_two_regions 1 =
     Inr [(0, Simple_repr 4 [Finite (1/2), Finite (1/2)]),
          (1, Simple_repr 5 [Finite (11/50), Finite (8/25)])]"
    by code_simp
  from region_completeness [OF h1 h2] h1 h2 show ?thesis by blast
qed

theorem merge_order_independent_witness:
  "mset [[(1::nat, Simple_repr 5 [Finite (11/50), Finite (8/25)])],
         [(0, Simple_repr 4 [Finite (1/2), Finite (1/2)])]] =
   mset [[(0, Simple_repr 4 [Finite (1/2), Finite (1/2)])],
         [(1, Simple_repr 5 [Finite (11/50), Finite (8/25)])]] \<and>
   xr_merge [[(1::nat, Simple_repr 5 [Finite (11/50), Finite (8/25)])],
             [(0, Simple_repr 4 [Finite (1/2), Finite (1/2)])]] =
   xr_merge [[(0, Simple_repr 4 [Finite (1/2), Finite (1/2)])],
             [(1, Simple_repr 5 [Finite (11/50), Finite (8/25)])]] \<and>
   xr_merge [[(1::nat, Simple_repr 5 [Finite (11/50), Finite (8/25)])],
             [(0, Simple_repr 4 [Finite (1/2), Finite (1/2)])]] =
     Inr [(0, Simple_repr 4 [Finite (1/2), Finite (1/2)]),
          (1, Simple_repr 5 [Finite (11/50), Finite (8/25)])]"
proof -
  have h: "mset [[(1::nat, Simple_repr 5 [Finite (11/50), Finite (8/25)])],
                 [(0, Simple_repr 4 [Finite (1/2), Finite (1/2)])]] =
           mset [[(0, Simple_repr 4 [Finite (1/2), Finite (1/2)])],
                 [(1, Simple_repr 5 [Finite (11/50), Finite (8/25)])]]"
    by (simp add: add_mset_commute)
  have v: "xr_merge [[(1::nat, Simple_repr 5 [Finite (11/50), Finite (8/25)])],
                     [(0, Simple_repr 4 [Finite (1/2), Finite (1/2)])]] =
             Inr [(0, Simple_repr 4 [Finite (1/2), Finite (1/2)]),
                  (1, Simple_repr 5 [Finite (11/50), Finite (8/25)])]"
    by code_simp
  from merge_order_independent [OF h] h v show ?thesis by blast
qed

subsection \<open>Simple aggregation when no capacity factor is missing\<close>

text \<open>When no surviving cell misses a capacity factor, the two arrays keep the same cells:
  the simple aggregator returns the truncated total capacity of the filtered cells and,
  at every time step, their total power divided by their total capacity, which lies
  between any two bounds of their capacity factors.\<close>

lemma lockstep_lengths:
  assumes "no_missing_capfac ds region"
  shows "length (regional_power_da ds region) = length (regional_capacity_da ds region)"
proof -
  let ?h = "\<lambda>c. case cell_capacity region c of None \<Rightarrow> None
            | Some x \<Rightarrow> map_option (map (\<lambda>v. x * v)) (those (cell_capfac region c))"
  have "(?h c \<noteq> None) = (cell_capacity region c \<noteq> None)" if "c \<in> set (cells ds)" for c
  proof (cases "cell_capacity region c")
    case None
    then show ?thesis by simp
  next
    case (Some x)
    from assms that have "cell_capacity region c = None \<or> those (capfac c) \<noteq> None"
      by (simp add: no_missing_capfac_def list_all_iff)
    with Some have "those (cell_capfac region c) \<noteq> None"
      using cell_capfac_kept [OF Some] by simp
    with Some show ?thesis by auto
  qed
  then have "filter (\<lambda>c. ?h c \<noteq> None) (cells ds) =
             filter (\<lambda>c. cell_capacity region c \<noteq> None) (cells ds)"
    by (intro filter_cong refl)
  then have "length (map snd (regional_power_da ds region)) =
             length (map snd (regional_capacity_da ds region))"
    unfolding power_values capacity_values length_map_filter by simp
  then show ?thesis by simp
qed

lemma power_total_filtered_cells:
  assumes "wf_ds ds" and "t < n_timeSteps ds"
  shows "sum_list (map (\<lambda>(i, row). row ! t) (regional_power_da ds region)) =
         sum_list (map (\<lambda>(c, row). c * row ! t) (filtered_cells ds region))"
proof -
  have "sum_list (map (\<lambda>(i, row). row ! t) (regional_power_da ds region)) =
        sum_list (map (\<lambda>row. row ! t) (map snd (regional_power_da ds region)))"
    by (simp add: comp_def case_prod_unfold)
  also have "\<dots> = sum_list (map (\<lambda>(c, row). map (\<lambda>v. c * v) row ! t) (filtered_cells ds region))"
    unfolding power_filtered_cells by (simp add: comp_def case_prod_unfold)
  also have "\<dots> = sum_list (map (\<lambda>(c, row). c * row ! t) (filtered_cells ds region))"
  proof (intro arg_cong [where f = sum_list] map_cong refl)
    fix x assume x: "x \<in> set (filtered_cells ds region)"
    obtain c row where cr: "x = (c, row)" by (cases x)
    with x assms(1) have "length row = n_timeSteps ds" by (simp add: filtered_cells_length)
    with assms(2) cr show "(case x of (c, row) \<Rightarrow> map (\<lambda>v. c * v) row ! t) =
                           (case x of (c, row) \<Rightarrow> c * row ! t)" by simp
  qed
  finally show ?thesis .
qed

lemma simple_aggregate_lockstep:
  assumes "no_missing_capfac ds region" and "wf_ds ds \<and> 0 < n_timeSteps ds"
  shows "simply_aggregate_RE_technology ds region =
           Inr [(region,
             Simple_repr (astype_int64 (sum_list (map fst (filtered_cells ds region))))
               (map (\<lambda>t. np_div (sum_list (map (\<lambda>(c, row). c * row ! t) (filtered_cells ds region)))
                                (sum_list (map fst (filtered_cells ds region))))
                  [0..<n_timeSteps ds]))]"
proof -
  have cap: "sum_x_y_1d (regional_capacity_da ds region) =
             sum_list (map fst (filtered_cells ds region))"
    using capacity_filtered_cells [OF lockstep_lengths [OF assms(1)]]
    by (simp add: sum_x_y_1d_def)
  have pw: "sum_x_y_2d (n_timeSteps ds) (regional_power_da ds region) =
            map (\<lambda>t. sum_list (map (\<lambda>(c, row). c * row ! t) (filtered_cells ds region)))
              [0..<n_timeSteps ds]"
    unfolding sum_x_y_2d_def
    by (intro map_cong refl power_total_filtered_cells) (use assms(2) in simp_all)
  show ?thesis
    using assms(2) by (simp add: simply_aggregate_RE_technology_def Let_def cap pw comp_def)
qed

lemma filtered_cells_positive:
  assumes "(c, row) \<in> set (filtered_cells ds region)"
  shows "0 < c"
  using assms unfolding filtered_cells_def set_map_filter
  by (auto split: if_splits option.splits)

lemma weighted_mean_bounds:
  fixes xs :: "(real \<times> real list) list"
  assumes "xs \<noteq> []"
      and "\<And>c row. (c, row) \<in> set xs \<Longrightarrow> 0 < c \<and> lo \<le> row ! t \<and> row ! t \<le> hi"
  shows "lo \<le> sum_list (map (\<lambda>(c, row). c * row ! t) xs) / sum_list (map fst xs) \<and>
         sum_list (map (\<lambda>(c, row). c * row ! t) xs) / sum_list (map fst xs) \<le> hi"
proof -
  have pos: "0 < sum_list (map fst xs)"
  proof (rule sum_list_pos_nonempty)
    fix x assume "x \<in> set (map fst xs)"
    then obtain row where "(x, row) \<in> set xs" by auto
    then show "0 < x" using assms(2) by blast
  next
    show "map fst xs \<noteq> []" using assms(1) by simp
  qed
  have "sum_list (map (\<lambda>(c, row). c * lo) xs) \<le> sum_list (map (\<lambda>(c, row). c * row ! t) xs)"
    by (rule sum_list_mono) (use assms(2) in \<open>auto simp: mult_left_mono\<close>)
  moreover have "sum_list (map (\<lambda>(c, row). c * lo) xs) = sum_list (map fst xs) * lo"
    by (induction xs) (auto simp: algebra_simps)
  ultimately have lo: "sum_list (map fst xs) * lo \<le> sum_list (map (\<lambda>(c, row). c * row ! t) xs)"
    by simp
  have "sum_list (map (\<lambda>(c, row). c * row ! t) xs) \<le> sum_list (map (\<lambda>(c, row). c * hi) xs)"
    by (rule sum_list_mono) (use assms(2) in \<open>auto simp: mult_left_mono\<close>)
  moreover have "sum_list (map (\<lambda>(c, row). c * hi) xs) = sum_list (map fst xs) * hi"
    by (induction xs) (auto simp: algebra_simps)
  ultimately have hi: "sum_list (map (\<lambda>(c, row). c * row ! t) xs) \<le> sum_list (map fst xs) * hi"
    by simp
  from pos lo have "lo \<le> sum_list (map (\<lambda>(c, row). c * row ! t) xs) / sum_list (map fst xs)"
    by (simp only: pos_le_divide_eq mult.commute [of lo])
  moreover from pos hi
  have "sum_list (map (\<lambda>(c, row). c * row ! t) xs) / sum_list (map fst xs) \<le> hi"
    by (simp only: pos_divide_le_eq mult.commute [of hi])
  ultimately show ?thesis ..
qed

lemma simple_capfac_bounds:
  assumes "no_missing_capfac ds region" and "wf_ds ds" and "t < n_timeSteps ds"
      and "filtered_cells ds region \<noteq> []"
      and "\<And>c row. (c, row) \<in> set (filtered_cells ds region) \<Longrightarrow> lo \<le> row ! t \<and> row ! t \<le> hi"
  shows "\<exists>cap ts p. simply_aggregate_RE_technology ds region = Inr [(region, Simple_repr cap ts)] \<and>
           ts ! t = Finite p \<and> lo \<le> p \<and> p \<le> hi"
proof -
  let ?C = "sum_list (map fst (filtered_cells ds region))"
  let ?P = "sum_list (map (\<lambda>(c, row). c * row ! t) (filtered_cells ds region))"
  have cpos: "0 < c" if "(c, row) \<in> set (filtered_cells ds region)" for c row
    using that by (rule filtered_cells_positive)
  have pos: "0 < ?C"
  proof (rule sum_list_pos_nonempty)
    fix x assume "x \<in> set (map fst (filtered_cells ds region))"
    then obtain row where "(x, row) \<in> set (filtered_cells ds region)" by auto
    then show "0 < x" by (rule cpos)
  next
    show "map fst (filtered_cells ds region) \<noteq> []" using assms(4) by simp
  qed
  have b: "lo \<le> ?P / ?C \<and> ?P / ?C \<le> hi"
  proof (rule weighted_mean_bounds [OF assms(4)])
    fix c row assume m: "(c, row) \<in> set (filtered_cells ds region)"
    from cpos [OF m] assms(5) [OF m] show "0 < c \<and> lo \<le> row ! t \<and> row ! t \<le> hi" by simp
  qed
  have "np_div ?P ?C = Finite (?P / ?C)" using pos by (simp add: np_div_def)
  moreover have "wf_ds ds \<and> 0 < n_timeSteps ds" using assms(2,3) by simp
  ultimately show ?thesis
    using b assms(3) unfolding simple_aggregate_lockstep [OF assms(1) \<open>wf_ds ds \<and> 0 < n_timeSteps ds\<close>]
    by simp
qed

subsection \<open>One cluster and the simple aggregator\<close>





subsection \<open>Where the code departs from the specification\<close>

text \<open>
  Claim C1 fails on the code. The simple aggregator allocates its capacity array from the
  integer \<open>0\<close>, so the sum of the capacities is truncated when it is stored: two cells of
  capacity 0.5 and 0.25 give the capacity 0, not 0.75. (The cluster aggregator allocates
  floats.) The time series is computed from the untruncated sum.
\<close>

theorem simple_capacity_truncated:
  "simply_aggregate_RE_technology ds_frac 0 = Inr [(0, Simple_repr 0 [Finite 1])] \<and>
   sum_list (map fst (filtered_cells ds_frac 0)) = 3/4"
proof (intro conjI)
  show "simply_aggregate_RE_technology ds_frac 0 = Inr [(0, Simple_repr 0 [Finite 1])]"
    by code_simp
  show "sum_list (map fst (filtered_cells ds_frac 0)) = 3/4" by code_simp
qed

text \<open>
  Claim C5 fails on the code. \<^verbatim>\<open>dropna\<close> is applied to each array on its own: a cell of
  positive capacity whose capacity factor is missing at one time step is dropped from the
  capacity-factor array and kept in the capacity array. In cluster mode the boolean mask
  made from the labels then has the wrong length for the capacity array.
\<close>

theorem filtering_not_in_lockstep:
  "map fst (regional_capacity_da ds_nan 0) = [0, 1] \<and>
   map fst (regional_capfac_da ds_nan 0) = [0] \<and>
   cluster_RE_technology fit_one 1 ds_nan 0 = Inl IndexError"
proof (intro conjI)
  show "map fst (regional_capacity_da ds_nan 0) = [0, 1]" by code_simp
  show "map fst (regional_capfac_da ds_nan 0) = [0]" by code_simp
  show "cluster_RE_technology fit_one 1 ds_nan 0 = Inl IndexError" by code_simp
qed

text \<open>
  Claim C9 fails on the code, from the defect of claim C5. On one cell of capacity 1 whose
  capacity factor is missing at the one time step, no cell is left after the filter (the
  set of filtered cells is empty), but the capacity array keeps the cell: the simple
  aggregator returns the capacity 1 and the time series 0 (the empty sum of powers divided
  by 1), not NaN.
\<close>

theorem simple_empty_filtered_not_nan:
  "filtered_cells ds_missing 0 = [] \<and>
   simply_aggregate_RE_technology ds_missing 0 = Inr [(0, Simple_repr 1 [Finite 0])]"
proof (intro conjI)
  show "filtered_cells ds_missing 0 = []" by code_simp
  show "simply_aggregate_RE_technology ds_missing 0 = Inr [(0, Simple_repr 1 [Finite 0])]"
    by code_simp
qed

text \<open>
  Claim C10 fails on the code, from the defect of claim C5. On two cells of capacity 1, the
  first with the capacity factors 0.5 and 0.5 and the second with 0.5 and a missing value,
  the only filtered cell is the first, and the simple aggregator returns 0.25 at both time
  steps: the power of the first cell divided by the capacity of both.
\<close>

theorem simple_capfac_below_minimum:
  "filtered_cells ds_nan 0 = [(1, [1/2, 1/2])] \<and>
   simply_aggregate_RE_technology ds_nan 0 =
     Inr [(0, Simple_repr 2 [Finite (1/4), Finite (1/4)])]"
proof (intro conjI)
  show "filtered_cells ds_nan 0 = [(1, [1/2, 1/2])]" by code_simp
  show "simply_aggregate_RE_technology ds_nan 0 =
          Inr [(0, Simple_repr 2 [Finite (1/4), Finite (1/4)])]"
    by code_simp
qed

end
